theory Spec2Isabelle
  imports Complex_Main "HOL-Library.Multiset"
begin

section \<open>Data model\<close>

text \<open>
  The simulation core lives in \<^verbatim>\<open>src/ab_test_task_1.py\<close> and \<^verbatim>\<open>src/retention.py\<close>.
  Python numbers are embedded as follows. Install counts, calendar days and the keys of a
  retention point table are Python ints and become \<^typ>\<open>int\<close> (loop counters produced by
  \<^verbatim>\<open>range\<close> are never negative and become \<^typ>\<open>nat\<close>). Python floats become
  \<^typ>\<open>real\<close>: arithmetic is exact, and an int meeting a float in an expression is
  converted with \<^term>\<open>of_int\<close>, as Python does. The rounding of IEEE doubles is modelled
  apart, in a second copy of the two loops where a claim depends on it.
  Every exception the modelled functions can raise themselves is a value of \<open>py_error\<close>.
\<close>

datatype py_error = AssertionError | IndexError | KeyError | ValueError | ZeroDivisionError

text \<open>The dataclass \<^verbatim>\<open>VariantConfig\<close>.\<close>

record VariantConfig =
  name :: string
  base_purchase_rate :: real
  ecpm :: real
  ad_impressions_per_dau :: real

section \<open>Cohort simulation: \<^verbatim>\<open>simulate_dau\<close>\<close>

text \<open>
  The inner loop of \<^verbatim>\<open>simulate_dau\<close> runs \<^verbatim>\<open>install_day\<close> over
  \<^verbatim>\<open>range(1, current_day + 1)\<close>, starting from \<^verbatim>\<open>active_users = 0.0\<close>.
  The read \<^verbatim>\<open>daily_installs[install_day - 1]\<close> is always in range, because
  \<^verbatim>\<open>install_day \<le> current_day \<le> len(daily_installs)\<close>. The retention function is
  a function from ages to fractions, as its docstring says.
\<close>

definition active_users_on :: "int list \<Rightarrow> (int \<Rightarrow> real) \<Rightarrow> nat \<Rightarrow> real" where
  "active_users_on daily_installs retention_fn current_day =
     foldl (\<lambda>active_users install_day.
              let installs = daily_installs ! (install_day - 1);
                  age = int current_day - int install_day + 1
              in active_users + of_int installs * retention_fn age)
           0 [1..<current_day + 1]"

text \<open>The outer loop appends one entry per \<^verbatim>\<open>current_day\<close> in \<^verbatim>\<open>range(1, days + 1)\<close>.\<close>

definition simulate_dau :: "int list \<Rightarrow> (int \<Rightarrow> real) \<Rightarrow> real list" where
  "simulate_dau daily_installs retention_fn =
     (let days = length daily_installs
      in foldl (\<lambda>dau current_day. dau @ [active_users_on daily_installs retention_fn current_day])
               [] [1..<days + 1])"

section \<open>Combining sources: \<^verbatim>\<open>combine_sources\<close>\<close>

text \<open>
  The inner loop adds \<^verbatim>\<open>source[day_idx]\<close> for each source in turn; the index is
  never negative, so the read raises \<^verbatim>\<open>IndexError\<close> exactly when the source has no
  entry \<^verbatim>\<open>day_idx\<close>.
\<close>

fun day_sum_loop :: "real list list \<Rightarrow> nat \<Rightarrow> real \<Rightarrow> py_error + real" where
  "day_sum_loop [] day_idx day_sum = Inr day_sum"
| "day_sum_loop (source # rest) day_idx day_sum =
     (if day_idx < length source then day_sum_loop rest day_idx (day_sum + source ! day_idx)
      else Inl IndexError)"

fun total_dau_loop :: "real list list \<Rightarrow> nat list \<Rightarrow> real list \<Rightarrow> py_error + real list" where
  "total_dau_loop dau_sources [] total_dau = Inr total_dau"
| "total_dau_loop dau_sources (day_idx # later) total_dau =
     (case day_sum_loop dau_sources day_idx 0 of
        Inl e \<Rightarrow> Inl e
      | Inr day_sum \<Rightarrow> total_dau_loop dau_sources later (total_dau @ [day_sum]))"

text \<open>The variadic argument \<^verbatim>\<open>*dau_sources\<close> is the list of the series passed.\<close>

definition combine_sources :: "real list list \<Rightarrow> py_error + real list" where
  "combine_sources dau_sources =
     (if dau_sources = [] then Inr []
      else let days = length (hd dau_sources)
           in total_dau_loop dau_sources [0..<days] [])"

section \<open>Revenue: \<^verbatim>\<open>simulate_revenue\<close>\<close>

text \<open>
  One iteration of the loop body, for \<^verbatim>\<open>day_idx\<close>. The sale period is
  \<^verbatim>\<open>None\<close> or a pair \<^verbatim>\<open>(start, end)\<close> of calendar days.
\<close>

definition revenue_on ::
  "VariantConfig \<Rightarrow> int list \<Rightarrow> real list \<Rightarrow> (int \<times> int) option \<Rightarrow> real \<Rightarrow> real \<Rightarrow> nat \<Rightarrow> real" where
  "revenue_on variant daily_installs_total dau_total sale_period sale_boost_abs arppu day_idx =
     (let day_number = int day_idx + 1;
          purchase_rate = base_purchase_rate variant;
          purchase_rate =
            (case sale_period of
               None \<Rightarrow> purchase_rate
             | Some (start, end) \<Rightarrow>
                 if start \<le> day_number \<and> day_number \<le> end then purchase_rate + sale_boost_abs
                 else purchase_rate);
          installs = daily_installs_total ! day_idx;
          dau = dau_total ! day_idx;
          iap_revenue = of_int installs * purchase_rate * arppu;
          ad_impressions = dau * ad_impressions_per_dau variant;
          ad_revenue = (ad_impressions * ecpm variant) / 1000;
          total = iap_revenue + ad_revenue
      in total)"

text \<open>
  The \<^verbatim>\<open>assert\<close> comes first (assertions are on, as in a plain run of the
  interpreter); after it both reads of the loop body are in range.
  The defaults of the source (\<^verbatim>\<open>sale_period=None\<close>, \<^verbatim>\<open>sale_boost_abs=0.0\<close>,
  \<^verbatim>\<open>arppu=5.0\<close>) are arguments here.
\<close>

definition simulate_revenue ::
  "VariantConfig \<Rightarrow> int list \<Rightarrow> real list \<Rightarrow> (int \<times> int) option \<Rightarrow> real \<Rightarrow> real
     \<Rightarrow> py_error + real list" where
  "simulate_revenue variant daily_installs_total dau_total sale_period sale_boost_abs arppu =
     (if length daily_installs_total \<noteq> length dau_total then Inl AssertionError
      else Inr (foldl (\<lambda>daily_revenue day_idx.
                         daily_revenue @ [revenue_on variant daily_installs_total dau_total
                                            sale_period sale_boost_abs arppu day_idx])
                      [] [0..<length dau_total]))"

section \<open>Retention: \<^verbatim>\<open>linear_retention\<close>\<close>

text \<open>
  The dict \<^verbatim>\<open>points\<close> is an association list of its items, with int keys and float
  values; a dict holds a key once, so the keys of the list are meant to be distinct.
  Python is dynamically typed and \<^verbatim>\<open>linear_retention\<close> only compares
  \<^verbatim>\<open>day\<close>, looks it up and subtracts from it, so \<^verbatim>\<open>day\<close> may be an int or a
  float: it is a \<^typ>\<open>real\<close> here, an int day \<open>d\<close> being \<open>of_int d\<close>. The test
  \<^verbatim>\<open>day in points\<close> and the read \<^verbatim>\<open>points[day]\<close> compare numbers by value,
  whatever their type.
\<close>

fun dict_get :: "(int \<times> real) list \<Rightarrow> real \<Rightarrow> real option" where
  "dict_get [] day = None"
| "dict_get ((k, r) # rest) day = (if of_int k = day then Some r else dict_get rest day)"

definition dict_item :: "(int \<times> real) list \<Rightarrow> int \<Rightarrow> py_error + real" where
  "dict_item points k =
     (case dict_get points (of_int k) of None \<Rightarrow> Inl KeyError | Some r \<Rightarrow> Inr r)"

text \<open>Sequencing of steps that may raise: the first exception ends the computation.\<close>

definition and_then :: "py_error + 'a \<Rightarrow> ('a \<Rightarrow> py_error + 'b) \<Rightarrow> py_error + 'b" where
  "and_then m f = (case m of Inl e \<Rightarrow> Inl e | Inr x \<Rightarrow> f x)"

text \<open>List subscript with Python's negative indices, as in \<^verbatim>\<open>known_days[-1]\<close>.\<close>

definition py_index :: "'a list \<Rightarrow> int \<Rightarrow> py_error + 'a" where
  "py_index xs i =
     (let j = (if i < 0 then i + int (length xs) else i)
      in if 0 \<le> j \<and> j < int (length xs) then Inr (xs ! nat j) else Inl IndexError)"

text \<open>\<^verbatim>\<open>max\<close> and \<^verbatim>\<open>min\<close> of a generator raise \<^verbatim>\<open>ValueError\<close> when it is empty.\<close>

fun py_max :: "int list \<Rightarrow> py_error + int" where
  "py_max [] = Inl ValueError"
| "py_max (d # ds) = Inr (fold max ds d)"

fun py_min :: "int list \<Rightarrow> py_error + int" where
  "py_min [] = Inl ValueError"
| "py_min (d # ds) = Inr (fold min ds d)"

text \<open>Float division raises on a zero divisor, where HOL's \<open>x / 0\<close> is \<open>0\<close>.\<close>

definition py_div :: "real \<Rightarrow> real \<Rightarrow> py_error + real" where
  "py_div a b = (if b = 0 then Inl ZeroDivisionError else Inr (a / b))"

text \<open>The branch \<^verbatim>\<open>if day > known_days[-1]\<close>: linear extrapolation, clamped at \<open>0.0\<close>.\<close>

definition extrapolate :: "real \<Rightarrow> (int \<times> real) list \<Rightarrow> int list \<Rightarrow> py_error + real" where
  "extrapolate day points known_days =
     and_then (py_index known_days (- 2)) (\<lambda>d1.
     and_then (py_index known_days (- 1)) (\<lambda>d2.
     and_then (dict_item points d1) (\<lambda>r1.
     and_then (dict_item points d2) (\<lambda>r2.
     and_then (py_div (r2 - r1) (of_int (d2 - d1))) (\<lambda>slope.
     Inr (max 0 (r2 + slope * (day - of_int d2))))))))"

text \<open>The last branch: the interval of known days around \<^verbatim>\<open>day\<close>.\<close>

definition interpolate :: "real \<Rightarrow> (int \<times> real) list \<Rightarrow> int list \<Rightarrow> py_error + real" where
  "interpolate day points known_days =
     and_then (py_max (filter (\<lambda>d. of_int d < day) known_days)) (\<lambda>prev_day.
     and_then (py_min (filter (\<lambda>d. of_int d > day) known_days)) (\<lambda>next_day.
     and_then (dict_item points prev_day) (\<lambda>r1.
     and_then (dict_item points next_day) (\<lambda>r2.
     and_then (py_div (r2 - r1) (of_int (next_day - prev_day))) (\<lambda>slope.
     Inr (r1 + slope * (day - of_int prev_day)))))))"

definition linear_retention :: "real \<Rightarrow> (int \<times> real) list \<Rightarrow> py_error + real" where
  "linear_retention day points =
     (if day \<le> 1 then Inr 1
      else case dict_get points day of
             Some r \<Rightarrow> Inr r
           | None \<Rightarrow>
               (let known_days = sort (remdups (map fst points))
                in and_then (py_index known_days (- 1)) (\<lambda>last_day.
                     if day > of_int last_day then extrapolate day points known_days
                     else interpolate day points known_days)))"

section \<open>The same loops with rounded arithmetic\<close>

text \<open>
  Python computes with IEEE 754 doubles: every float operation returns the exact result
  rounded to the nearest double, ties going to the even significand. \<open>f64\<close> is that
  rounding, for a real number as input: the magnitude is scaled by powers of two until it
  lies in \<open>[2^52, 2^53)\<close>, rounded to an integer there, and scaled back. The scaling
  up stops after 1074 doublings, where the spacing of the doubles no longer shrinks
  (\<open>2^-1074\<close>, the subnormal numbers). Overflow to infinity and NaN are left out.
\<close>

definition round_half_even :: "real \<Rightarrow> int" where
  "round_half_even m =
     (let f = \<lfloor>m\<rfloor>; r = m - of_int f
      in if r < 1 / 2 then f else if 1 / 2 < r then f + 1 else if even f then f else f + 1)"

fun round_significand :: "nat \<Rightarrow> real \<Rightarrow> real \<Rightarrow> real" where
  "round_significand 0 m ulp = of_int (round_half_even m) * ulp"
| "round_significand (Suc steps) m ulp =
     (if m < 2 ^ 52 then round_significand steps (2 * m) (ulp / 2)
      else if 2 ^ 53 \<le> m then round_significand steps (m / 2) (2 * ulp)
      else of_int (round_half_even m) * ulp)"

definition f64 :: "real \<Rightarrow> real" where
  "f64 x = (if x = 0 then 0 else sgn x * round_significand 1074 \<bar>x\<bar> 1)"

text \<open>
  The loops of \<^verbatim>\<open>simulate_dau\<close> and \<^verbatim>\<open>combine_sources\<close> once more, with a rounding
  \<open>rnd\<close> applied to the result of every float operation (the conversion of the int
  \<^verbatim>\<open>installs\<close> to a float included). With \<open>rnd = f64\<close> these are the values the
  interpreter computes; with the identity they are the exact loops above.
\<close>

definition active_users_on_rounded :: "(real \<Rightarrow> real) \<Rightarrow> int list \<Rightarrow> (int \<Rightarrow> real) \<Rightarrow> nat \<Rightarrow> real" where
  "active_users_on_rounded rnd daily_installs retention_fn current_day =
     foldl (\<lambda>active_users install_day.
              let installs = daily_installs ! (install_day - 1);
                  age = int current_day - int install_day + 1
              in rnd (active_users + rnd (rnd (of_int installs) * retention_fn age)))
           0 [1..<current_day + 1]"

definition simulate_dau_rounded :: "(real \<Rightarrow> real) \<Rightarrow> int list \<Rightarrow> (int \<Rightarrow> real) \<Rightarrow> real list" where
  "simulate_dau_rounded rnd daily_installs retention_fn =
     (let days = length daily_installs
      in foldl (\<lambda>dau current_day.
                  dau @ [active_users_on_rounded rnd daily_installs retention_fn current_day])
               [] [1..<days + 1])"

fun day_sum_loop_rounded :: "(real \<Rightarrow> real) \<Rightarrow> real list list \<Rightarrow> nat \<Rightarrow> real \<Rightarrow> py_error + real" where
  "day_sum_loop_rounded rnd [] day_idx day_sum = Inr day_sum"
| "day_sum_loop_rounded rnd (source # rest) day_idx day_sum =
     (if day_idx < length source
      then day_sum_loop_rounded rnd rest day_idx (rnd (day_sum + source ! day_idx))
      else Inl IndexError)"

fun total_dau_loop_rounded ::
  "(real \<Rightarrow> real) \<Rightarrow> real list list \<Rightarrow> nat list \<Rightarrow> real list \<Rightarrow> py_error + real list" where
  "total_dau_loop_rounded rnd dau_sources [] total_dau = Inr total_dau"
| "total_dau_loop_rounded rnd dau_sources (day_idx # later) total_dau =
     (case day_sum_loop_rounded rnd dau_sources day_idx 0 of
        Inl e \<Rightarrow> Inl e
      | Inr day_sum \<Rightarrow> total_dau_loop_rounded rnd dau_sources later (total_dau @ [day_sum]))"

definition combine_sources_rounded :: "(real \<Rightarrow> real) \<Rightarrow> real list list \<Rightarrow> py_error + real list" where
  "combine_sources_rounded rnd dau_sources =
     (if dau_sources = [] then Inr []
      else let days = length (hd dau_sources)
           in total_dau_loop_rounded rnd dau_sources [0..<days] [])"

text \<open>The retention function \<^verbatim>\<open>lambda age: 1/3\<close>, whose value is the double next to a third.\<close>

definition one_third_retention :: "int \<Rightarrow> real" where
  "one_third_retention age = f64 (1 / 3)"

section \<open>Helper lemmas on the loops\<close>

lemma foldl_append_each: "foldl (\<lambda>acc i. acc @ [f i]) acc0 is = acc0 @ map f is"
  by (induction "is" arbitrary: acc0) simp_all

lemma foldl_add_sum_list:
  "foldl (\<lambda>acc i. acc + g i) (a::real) is = a + sum_list (map g is)"
  by (induction "is" arbitrary: a) (simp_all add: add.assoc)

lemma simulate_dau_map:
  "simulate_dau daily_installs retention_fn =
     map (active_users_on daily_installs retention_fn) [1..<length daily_installs + 1]"
  unfolding simulate_dau_def Let_def by (simp only: foldl_append_each append_Nil)

lemma simulate_revenue_map:
  "length daily_installs_total = length dau_total \<Longrightarrow>
   simulate_revenue variant daily_installs_total dau_total sale_period sale_boost_abs arppu =
     Inr (map (revenue_on variant daily_installs_total dau_total sale_period sale_boost_abs arppu)
              [0..<length dau_total])"
  by (simp add: simulate_revenue_def foldl_append_each)

lemma active_users_on_sum:
  "active_users_on xs r t = (\<Sum>s = 1..t. of_int (xs ! (s - 1)) * r (int t - int s + 1))"
proof -
  have "active_users_on xs r t =
      0 + sum_list (map (\<lambda>s. of_int (xs ! (s - 1)) * r (int t - int s + 1)) [1..<t + 1])"
    unfolding active_users_on_def Let_def by (rule foldl_add_sum_list)
  also have "\<dots> = (\<Sum>s \<in> set [1..<t + 1]. of_int (xs ! (s - 1)) * r (int t - int s + 1))"
    by (simp only: interv_sum_list_conv_sum_set_nat add_0)
  also have "set [1..<t + 1] = {1..t}"
    by auto
  finally show ?thesis .
qed

lemma simulate_dau_length: "length (simulate_dau xs r) = length xs"
  by (simp add: simulate_dau_map del: upt_Suc)

lemma simulate_dau_nth:
  assumes "i < length xs"
  shows "simulate_dau xs r ! i = active_users_on xs r (i + 1)"
proof -
  have "[1..<length xs + 1] ! i = 1 + i"
    using assms by (intro nth_upt) simp
  then show ?thesis
    using assms by (simp add: simulate_dau_map del: upt_Suc)
qed

section \<open>Claims on \<^verbatim>\<open>simulate_dau\<close>\<close>

text \<open>
  Claim C1. For every install series and every retention function, \<^verbatim>\<open>simulate_dau\<close>
  returns a DAU series as long as the install series; its entry for calendar day \<open>t\<close>
  (counted from 1) is the sum, over the install days \<open>s\<close> from 1 to \<open>t\<close>, of
  \<open>installs[s-1] * retention(t - s + 1)\<close>; an empty install series gives an empty DAU
  series.
\<close>

theorem simulate_dau_cohort_sum:
  "length (simulate_dau installs r) = length installs \<and>
   (\<forall>t. 1 \<le> t \<and> t \<le> length installs \<longrightarrow>
        simulate_dau installs r ! (t - 1) =
          (\<Sum>s = 1..t. of_int (installs ! (s - 1)) * r (int t - int s + 1))) \<and>
   simulate_dau [] r = []"
proof (intro conjI allI impI)
  show "length (simulate_dau installs r) = length installs"
    by (rule simulate_dau_length)
next
  fix t assume t: "1 \<le> t \<and> t \<le> length installs"
  then have "t - 1 < length installs"
    by arith
  then have "simulate_dau installs r ! (t - 1) = active_users_on installs r (t - 1 + 1)"
    by (rule simulate_dau_nth)
  with t show "simulate_dau installs r ! (t - 1) =
      (\<Sum>s = 1..t. of_int (installs ! (s - 1)) * r (int t - int s + 1))"
    by (simp add: active_users_on_sum)
next
  show "simulate_dau [] r = []"
    by (simp add: simulate_dau_def)
qed

text \<open>Day 3 of the installs \<open>[100, 200, 0]\<close> under the retention \<open>1 / age\<close>.\<close>

theorem simulate_dau_cohort_sum_witness:
  "1 \<le> (3::nat) \<and> 3 \<le> length [100, 200, 0 :: int] \<and>
   length (simulate_dau [100, 200, 0] (\<lambda>age. 1 / of_int age)) = 3 \<and>
   simulate_dau [100, 200, 0] (\<lambda>age. 1 / of_int age) ! (3 - 1) = 400 / 3"
proof -
  have every: "\<forall>t. 1 \<le> t \<and> t \<le> length [100, 200, 0 :: int] \<longrightarrow>
        simulate_dau [100, 200, 0] (\<lambda>age. 1 / of_int age) ! (t - 1) =
          (\<Sum>s = 1..t. of_int ([100, 200, 0] ! (s - 1)) * (1 / of_int (int t - int s + 1)))"
    and len: "length (simulate_dau [100, 200, 0] (\<lambda>age. 1 / of_int age)) = length [100, 200, 0 :: int]"
    using simulate_dau_cohort_sum [of "[100, 200, 0]" "\<lambda>age. 1 / of_int age"] by blast+
  from every have "1 \<le> (3::nat) \<and> 3 \<le> length [100, 200, 0 :: int] \<longrightarrow>
        simulate_dau [100, 200, 0] (\<lambda>age. 1 / of_int age) ! (3 - 1) =
          (\<Sum>s = 1..3. of_int ([100, 200, 0] ! (s - 1)) * (1 / of_int (int 3 - int s + 1)))"
    by (rule spec)
  then have "simulate_dau [100, 200, 0] (\<lambda>age. 1 / of_int age) ! (3 - 1) =
          (\<Sum>s = 1..3. of_int ([100, 200, 0] ! (s - 1)) * (1 / of_int (int 3 - int s + 1)))"
    by simp
  also have "\<dots> = 400 / 3"
    by (simp add: eval_nat_numeral)
  finally show ?thesis using len by simp
qed

section \<open>Claims on \<^verbatim>\<open>simulate_revenue\<close>\<close>

text \<open>
  Claim C7. Called with an install series and a DAU series of different lengths,
  \<^verbatim>\<open>simulate_revenue\<close> fails on its assertion: the result is the error and no revenue
  series, not even a partial one.
\<close>

theorem simulate_revenue_length_mismatch:
  "length daily_installs_total \<noteq> length dau_total \<Longrightarrow>
   simulate_revenue variant daily_installs_total dau_total sale_period sale_boost_abs arppu =
     Inl AssertionError"
  by (simp add: simulate_revenue_def)

text \<open>Two install days against one DAU day.\<close>

theorem simulate_revenue_length_mismatch_witness:
  "length [100, 100 :: int] \<noteq> length [100 :: real] \<and>
   simulate_revenue \<lparr>name = ''A'', base_purchase_rate = 3 / 100, ecpm = 10,
       ad_impressions_per_dau = 2\<rparr> [100, 100] [100] None 0 5 = Inl AssertionError"
  using simulate_revenue_length_mismatch [of "[100, 100]" "[100]"
      "\<lparr>name = ''A'', base_purchase_rate = 3 / 100, ecpm = 10, ad_impressions_per_dau = 2\<rparr>"
      None 0 5]
  by simp

text \<open>
  Claim C2. For install and DAU series of equal length, \<^verbatim>\<open>simulate_revenue\<close> returns a
  series of that length whose entry \<open>i\<close> is
  \<open>installs_total[i] * rate * arppu + dau_total[i] * ad_impressions_per_dau * ecpm / 1000\<close>,
  where \<open>rate\<close> is the base purchase rate, plus the boost exactly when a sale window is
  given and \<open>start \<le> i + 1 \<le> end\<close>; the boost is added, not multiplied.
\<close>

theorem simulate_revenue_formula:
  assumes "length installs_total = length dau_total"
  shows "\<exists>revenue.
     simulate_revenue variant installs_total dau_total sale_period sale_boost_abs arppu = Inr revenue \<and>
     length revenue = length installs_total \<and>
     (\<forall>i < length revenue.
        revenue ! i =
          of_int (installs_total ! i) *
            (base_purchase_rate variant +
              (if \<exists>start end. sale_period = Some (start, end) \<and>
                    start \<le> int i + 1 \<and> int i + 1 \<le> end
               then sale_boost_abs else 0)) * arppu
          + dau_total ! i * ad_impressions_per_dau variant * ecpm variant / 1000)"
proof -
  let ?f = "revenue_on variant installs_total dau_total sale_period sale_boost_abs arppu"
  have "simulate_revenue variant installs_total dau_total sale_period sale_boost_abs arppu =
      Inr (map ?f [0..<length dau_total])"
    using assms by (rule simulate_revenue_map)
  moreover have "length (map ?f [0..<length dau_total]) = length installs_total"
    using assms by simp
  moreover have "\<forall>i < length (map ?f [0..<length dau_total]).
      map ?f [0..<length dau_total] ! i =
          of_int (installs_total ! i) *
            (base_purchase_rate variant +
              (if \<exists>start end. sale_period = Some (start, end) \<and>
                    start \<le> int i + 1 \<and> int i + 1 \<le> end
               then sale_boost_abs else 0)) * arppu
          + dau_total ! i * ad_impressions_per_dau variant * ecpm variant / 1000"
    by (auto simp: revenue_on_def Let_def split: option.splits)
  ultimately show ?thesis by blast
qed


text \<open>
  The scenario of the specification: 100 installs and 100 DAU on each of five days, a sale
  on days 2 to 4 with boost \<open>0.01\<close>: 22 inside the window, 17 outside.
\<close>

theorem simulate_revenue_formula_witness:
  "length [100, 100, 100, 100, 100 :: int] = length [100, 100, 100, 100, 100 :: real] \<and>
   (\<exists>revenue.
      simulate_revenue \<lparr>name = ''A'', base_purchase_rate = 3 / 100, ecpm = 10,
          ad_impressions_per_dau = 2\<rparr> [100, 100, 100, 100, 100] [100, 100, 100, 100, 100]
          (Some (2, 4)) (1 / 100) 5 = Inr revenue \<and>
      length revenue = 5 \<and> revenue ! 0 = 17 \<and> revenue ! 1 = 22 \<and> revenue ! 3 = 22 \<and>
      revenue ! 4 = 17)"
proof -
  let ?v = "\<lparr>name = ''A'', base_purchase_rate = 3 / 100, ecpm = 10, ad_impressions_per_dau = 2\<rparr>"
  have len: "length [100, 100, 100, 100, 100 :: int] = length [100, 100, 100, 100, 100 :: real]"
    by simp
  from simulate_revenue_formula [OF len, of ?v "Some (2, 4)" "1 / 100" 5]
  obtain revenue where
    rev: "simulate_revenue ?v [100, 100, 100, 100, 100] [100, 100, 100, 100, 100]
            (Some (2, 4)) (1 / 100) 5 = Inr revenue"
    and l: "length revenue = 5"
    and each: "\<And>i. i < length revenue \<Longrightarrow>
        revenue ! i =
          of_int ([100, 100, 100, 100, 100] ! i) *
            (base_purchase_rate ?v +
              (if \<exists>start end. Some (2, 4) = Some (start, end) \<and>
                    start \<le> int i + 1 \<and> int i + 1 \<le> end
               then 1 / 100 else 0)) * 5
          + [100, 100, 100, 100, 100] ! i * ad_impressions_per_dau ?v * ecpm ?v / 1000"
    by auto
  have "revenue ! 0 = 17"
    using each [of 0] l by simp
  moreover have "revenue ! 1 = 22"
    using each [of 1] l by simp
  moreover have "revenue ! 3 = 22"
    using each [of 3] l by (simp add: eval_nat_numeral)
  moreover have "revenue ! 4 = 17"
    using each [of 4] l by (simp add: eval_nat_numeral)
  ultimately show ?thesis
    using rev l len by blast
qed

section \<open>Claims on \<^verbatim>\<open>combine_sources\<close>\<close>

lemma day_sum_loop_ok:
  "\<forall>s \<in> set srcs. i < length s \<Longrightarrow>
   day_sum_loop srcs i a = Inr (a + sum_list (map (\<lambda>s. s ! i) srcs))"
  by (induction srcs arbitrary: a) (simp_all add: add.assoc)

lemma day_sum_loop_short:
  "\<exists>s \<in> set srcs. length s \<le> i \<Longrightarrow> day_sum_loop srcs i a = Inl IndexError"
  by (induction srcs arbitrary: a) auto

lemma total_dau_loop_ok:
  "\<forall>i \<in> set idxs. \<forall>s \<in> set srcs. i < length s \<Longrightarrow>
   total_dau_loop srcs idxs acc = Inr (acc @ map (\<lambda>i. sum_list (map (\<lambda>s. s ! i) srcs)) idxs)"
  by (induction idxs arbitrary: acc) (simp_all add: day_sum_loop_ok)

lemma day_sum_loop_error: "day_sum_loop srcs i a = Inl e \<Longrightarrow> e = IndexError"
  by (induction srcs arbitrary: a) (auto split: if_splits)

lemma total_dau_loop_short:
  "\<exists>i \<in> set idxs. \<exists>s \<in> set srcs. length s \<le> i \<Longrightarrow>
   total_dau_loop srcs idxs acc = Inl IndexError"
proof (induction idxs arbitrary: acc)
  case Nil
  then show ?case by simp
next
  case (Cons i idxs)
  show ?case
  proof (cases "day_sum_loop srcs i 0")
    case (Inl e)
    then show ?thesis
      using day_sum_loop_error [OF Inl] by simp
  next
    case (Inr v)
    have "\<not> (\<exists>s \<in> set srcs. length s \<le> i)"
      using day_sum_loop_short [of srcs i 0] Inr by auto
    with Cons.prems have "\<exists>i \<in> set idxs. \<exists>s \<in> set srcs. length s \<le> i"
      by auto
    with Cons.IH Inr show ?thesis by simp
  qed
qed

lemma combine_sources_ok:
  assumes "srcs \<noteq> []" and "\<forall>s \<in> set srcs. length (hd srcs) \<le> length s"
  shows "combine_sources srcs =
    Inr (map (\<lambda>i. sum_list (map (\<lambda>s. s ! i) srcs)) [0..<length (hd srcs)])"
proof -
  have "\<forall>i \<in> set [0..<length (hd srcs)]. \<forall>s \<in> set srcs. i < length s"
    using assms(2) by fastforce
  then show ?thesis
    using assms(1) by (simp add: combine_sources_def total_dau_loop_ok)
qed

lemma combine_sources_short:
  assumes "srcs \<noteq> []" and "\<exists>s \<in> set srcs. length s < length (hd srcs)"
  shows "combine_sources srcs = Inl IndexError"
proof -
  from assms(2) obtain s where "s \<in> set srcs" "length s < length (hd srcs)"
    by blast
  then have "\<exists>i \<in> set [0..<length (hd srcs)]. \<exists>s \<in> set srcs. length s \<le> i"
    by (intro bexI [of _ "length s"] bexI [of _ s]) simp_all
  then show ?thesis
    using assms(1) by (simp add: combine_sources_def total_dau_loop_short)
qed

text \<open>
  Claim C3, as stated, asks for a failure whenever two of the series differ in length.
  A series longer than the first one is not noticed: its surplus entries are never read.
\<close>

theorem combine_sources_longer_counterexample:
  "combine_sources [[1], [1, 2]] = Inr [2]"
  by (simp add: combine_sources_def)

text \<open>
  Claim C3, amended. With no input series \<^verbatim>\<open>combine_sources\<close> returns the empty
  series. With one or more, it fails (with \<^verbatim>\<open>IndexError\<close>) when some series is
  shorter than the first one; when no series is shorter than the first one it returns a
  series of the length of the first one, whose entry \<open>i\<close> is the sum of the entries \<open>i\<close>
  of all the series.
\<close>

theorem combine_sources_lengths:
  "combine_sources [] = Inr [] \<and>
   (srcs \<noteq> [] \<and> (\<exists>s \<in> set srcs. length s < length (hd srcs)) \<longrightarrow>
      combine_sources srcs = Inl IndexError) \<and>
   (srcs \<noteq> [] \<and> (\<forall>s \<in> set srcs. length (hd srcs) \<le> length s) \<longrightarrow>
      (\<exists>total. combine_sources srcs = Inr total \<and> length total = length (hd srcs) \<and>
         (\<forall>i < length total. total ! i = sum_list (map (\<lambda>s. s ! i) srcs))))"
proof (intro conjI impI)
  show "combine_sources [] = Inr []"
    by (simp add: combine_sources_def)
next
  assume "srcs \<noteq> [] \<and> (\<exists>s \<in> set srcs. length s < length (hd srcs))"
  then show "combine_sources srcs = Inl IndexError"
    by (simp add: combine_sources_short)
next
  assume "srcs \<noteq> [] \<and> (\<forall>s \<in> set srcs. length (hd srcs) \<le> length s)"
  then have "combine_sources srcs =
      Inr (map (\<lambda>i. sum_list (map (\<lambda>s. s ! i) srcs)) [0..<length (hd srcs)])"
    by (simp add: combine_sources_ok)
  then show "\<exists>total. combine_sources srcs = Inr total \<and> length total = length (hd srcs) \<and>
         (\<forall>i < length total. total ! i = sum_list (map (\<lambda>s. s ! i) srcs))"
    by simp
qed

text \<open>A short second series fails; a long second series is cut to the first.\<close>

theorem combine_sources_lengths_witness:
  "combine_sources [[1, 2], [1]] = Inl IndexError \<and>
   (\<exists>total. combine_sources [[1], [1, 2]] = Inr total \<and> length total = 1 \<and> total ! 0 = 2)"
proof -
  have a: "[[1, 2], [1 :: real]] \<noteq> [] \<and>
      (\<exists>s \<in> set [[1, 2], [1 :: real]]. length s < length (hd [[1, 2], [1 :: real]]))"
    by simp
  have b: "[[1], [1, 2 :: real]] \<noteq> [] \<and>
      (\<forall>s \<in> set [[1], [1, 2 :: real]]. length (hd [[1], [1, 2 :: real]]) \<le> length s)"
    by simp
  have "combine_sources [[1, 2], [1]] = Inl IndexError"
    using combine_sources_lengths [of "[[1, 2], [1]]"] a by blast
  moreover have "\<exists>total. combine_sources [[1], [1, 2]] = Inr total \<and> length total = 1 \<and> total ! 0 = 2"
    using combine_sources_lengths [of "[[1], [1, 2]]"] b by fastforce
  ultimately show ?thesis
    by blast
qed

section \<open>Claims on \<^verbatim>\<open>linear_retention\<close>\<close>

subsection \<open>Lookups, subscripts and the sorted keys\<close>


lemma dict_get_None: "\<forall>k \<in> fst ` set points. of_int k \<noteq> day \<Longrightarrow> dict_get points day = None"
  by (induction points) auto

lemma in_set_not_Nil: "x \<in> set xs \<Longrightarrow> xs \<noteq> []"
  by auto

lemma sorted_le_last: "sorted xs \<Longrightarrow> x \<in> set xs \<Longrightarrow> x \<le> last xs"
  by (cases xs rule: rev_cases) (auto simp: sorted_append)

lemma dict_get_item:
  "distinct (map fst points) \<Longrightarrow> (k, r) \<in> set points \<Longrightarrow> dict_get points (of_int k) = Some r"
  by (induction points) (auto simp: rev_image_eqI)

lemma dict_item_item:
  "distinct (map fst points) \<Longrightarrow> (k, r) \<in> set points \<Longrightarrow> dict_item points k = Inr r"
  by (simp add: dict_item_def dict_get_item)

lemma py_index_last: "py_index (ys @ [d1, d2]) (- 1) = Inr d2"
proof -
  have "nat (- 1 + int (length (ys @ [d1, d2]))) = Suc (length ys)"
    by simp
  then show ?thesis
    by (simp add: py_index_def Let_def nth_append)
qed

lemma py_index_last_but_one: "py_index (ys @ [d1, d2]) (- 2) = Inr d1"
proof -
  have "nat (- 2 + int (length (ys @ [d1, d2]))) = length ys"
    by simp
  then show ?thesis
    by (simp add: py_index_def Let_def nth_append)
qed

lemma py_index_last_nonempty: "xs \<noteq> [] \<Longrightarrow> py_index xs (- 1) = Inr (last xs)"
  by (cases xs rule: rev_cases) (simp_all add: py_index_def nth_append)

lemma py_max_Max: "ds \<noteq> [] \<Longrightarrow> py_max ds = Inr (Max (set ds))"
  by (cases ds) (simp_all add: Max.set_eq_fold [symmetric])

lemma py_min_Min: "ds \<noteq> [] \<Longrightarrow> py_min ds = Inr (Min (set ds))"
  by (cases ds) (simp_all add: Min.set_eq_fold [symmetric])

lemma two_largest_last:
  fixes xs :: "int list"
  assumes "sorted xs" "distinct xs" "d1 \<in> set xs" "d2 \<in> set xs" "d1 < d2"
    and top: "\<forall>k \<in> set xs. k = d2 \<or> k \<le> d1"
  shows "\<exists>ys. xs = ys @ [d1, d2]"
proof -
  from assms(4) obtain zs l where xs: "xs = zs @ [l]"
    by (cases xs rule: rev_cases) auto
  have "d2 \<le> l"
    using assms(1,4) xs by (auto simp: sorted_append)
  moreover have "l = d2 \<or> l \<le> d1"
    using top xs by simp
  ultimately have l: "l = d2"
    using assms(5) by linarith
  have "d1 \<in> set zs"
    using assms(3,5) xs l by auto
  then obtain ws m where zs: "zs = ws @ [m]"
    by (cases zs rule: rev_cases) auto
  have "m \<noteq> d2"
    using assms(2) xs zs l by auto
  then have "m \<le> d1"
    using top xs zs by auto
  moreover have "d1 \<le> m"
    using assms(1) \<open>d1 \<in> set zs\<close> xs zs by (auto simp: sorted_append)
  ultimately have "m = d1" by simp
  then show ?thesis
    using xs zs l by simp
qed

subsection \<open>The two computing branches\<close>

text \<open>
  Beyond the largest key the function extrapolates from the two largest keys; strictly
  between two neighbouring keys it interpolates. Both hold for any real \<open>day\<close> above 1.
\<close>

lemma linear_retention_beyond:
  assumes dist: "distinct (map fst points)"
    and p1: "(d1, r1) \<in> set points" and p2: "(d2, r2) \<in> set points"
    and lt: "d1 < d2"
    and top: "\<forall>k \<in> fst ` set points. k = d2 \<or> k \<le> d1"
    and day: "1 < day" "of_int d2 < day"
  shows "linear_retention day points =
    Inr (max 0 (r2 + ((r2 - r1) / of_int (d2 - d1)) * (day - of_int d2)))"
proof -
  let ?kd = "sort (remdups (map fst points))"
  have keys: "set ?kd = fst ` set points"
    by simp
  have "d1 \<in> fst ` set points" "d2 \<in> fst ` set points"
    using p1 p2 by force+
  then have "\<exists>ys. ?kd = ys @ [d1, d2]"
    using lt top by (intro two_largest_last) (simp_all only: keys sorted_sort distinct_sort distinct_remdups)
  then obtain ys where kd: "?kd = ys @ [d1, d2]" ..
  have "\<forall>k \<in> fst ` set points. of_int k \<noteq> day"
  proof
    fix k assume "k \<in> fst ` set points"
    with top lt have "k \<le> d2" by fastforce
    then have "real_of_int k \<le> of_int d2" by simp
    with day(2) show "of_int k \<noteq> day" by linarith
  qed
  then have none: "dict_get points day = None"
    by (rule dict_get_None)
  have "extrapolate day points ?kd =
      Inr (max 0 (r2 + ((r2 - r1) / of_int (d2 - d1)) * (day - of_int d2)))"
    using lt
    by (simp add: extrapolate_def kd py_index_last py_index_last_but_one and_then_def
        dict_item_item [OF dist p1] dict_item_item [OF dist p2] py_div_def)
  then show ?thesis
    using day none unfolding linear_retention_def Let_def
    by (simp add: kd py_index_last and_then_def)
qed

lemma linear_retention_between:
  assumes dist: "distinct (map fst points)"
    and p1: "(d1, r1) \<in> set points" and p2: "(d2, r2) \<in> set points"
    and adj: "\<forall>k \<in> fst ` set points. k \<le> d1 \<or> d2 \<le> k"
    and day: "1 < day" "of_int d1 < day" "day < of_int d2"
  shows "linear_retention day points =
    Inr (r1 + ((r2 - r1) / of_int (d2 - d1)) * (day - of_int d1))"
proof -
  let ?kd = "sort (remdups (map fst points))"
  have keys: "set ?kd = fst ` set points"
    by simp
  have k1: "d1 \<in> fst ` set points" and k2: "d2 \<in> fst ` set points"
    using p1 p2 by force+
  have lt: "d1 < d2"
    using day(2,3) by linarith
  have "\<forall>k \<in> fst ` set points. of_int k \<noteq> day"
  proof
    fix k assume "k \<in> fst ` set points"
    with adj have "k \<le> d1 \<or> d2 \<le> k" by blast
    then have "real_of_int k \<le> of_int d1 \<or> real_of_int d2 \<le> of_int k" by simp
    with day(2,3) show "of_int k \<noteq> day" by linarith
  qed
  then have none: "dict_get points day = None"
    by (rule dict_get_None)
  have "d1 \<in> set ?kd"
    using k1 by (simp only: keys)
  then have ne: "?kd \<noteq> []"
    by (rule in_set_not_Nil)
  have "d2 \<le> last ?kd"
    using k2 by (intro sorted_le_last) (simp_all only: keys sorted_sort)
  then have "real_of_int d2 \<le> of_int (last ?kd)"
    by (simp only: of_int_le_iff)
  then have notbeyond: "\<not> day > of_int (last ?kd)"
    using day(3) by linarith
  let ?below = "filter (\<lambda>d. real_of_int d < day) ?kd"
  let ?above = "filter (\<lambda>d. real_of_int d > day) ?kd"
  have b1: "d1 \<in> set ?below" using k1 day(2) by simp
  have b2: "\<forall>k \<in> set ?below. k \<le> d1"
  proof
    fix k assume "k \<in> set ?below"
    then have "k \<in> fst ` set points" "real_of_int k < day" by simp_all
    moreover from this adj have "k \<le> d1 \<or> d2 \<le> k" by blast
    moreover have "d2 \<le> k \<Longrightarrow> real_of_int d2 \<le> of_int k" by simp
    ultimately show "k \<le> d1"
      using day(3) by linarith
  qed
  have "Max (set ?below) = d1"
    using b1 b2 by (intro Max_eqI) auto
  moreover have "?below \<noteq> []"
    using b1 by (rule in_set_not_Nil)
  then have "py_max ?below = Inr (Max (set ?below))"
    by (rule py_max_Max)
  ultimately have prev: "py_max ?below = Inr d1"
    by (simp only:)
  have a1: "d2 \<in> set ?above" using k2 day(3) by simp
  have a2: "\<forall>k \<in> set ?above. d2 \<le> k"
  proof
    fix k assume "k \<in> set ?above"
    then have "k \<in> fst ` set points" "real_of_int k > day" by simp_all
    moreover from this adj have "k \<le> d1 \<or> d2 \<le> k" by blast
    moreover have "k \<le> d1 \<Longrightarrow> real_of_int k \<le> of_int d1" by simp
    ultimately show "d2 \<le> k"
      using day(2) by linarith
  qed
  have "Min (set ?above) = d2"
    using a1 a2 by (intro Min_eqI) auto
  moreover have "?above \<noteq> []"
    using a1 by (rule in_set_not_Nil)
  then have "py_min ?above = Inr (Min (set ?above))"
    by (rule py_min_Min)
  ultimately have "next": "py_min ?above = Inr d2"
    by (simp only:)
  have "interpolate day points ?kd =
      Inr (r1 + ((r2 - r1) / of_int (d2 - d1)) * (day - of_int d1))"
    unfolding interpolate_def prev "next" using lt
    by (simp add: and_then_def dict_item_item [OF dist p1] dict_item_item [OF dist p2] py_div_def)
  then show ?thesis
    using day(1) none notbeyond ne unfolding linear_retention_def Let_def
    by (simp add: py_index_last_nonempty and_then_def)
qed

lemma between_bounds:
  fixes r1 r2 day :: real and d1 d2 :: int
  assumes "of_int d1 < day" "day < of_int d2"
  shows "min r1 r2 \<le> r1 + ((r2 - r1) / of_int (d2 - d1)) * (day - of_int d1)"
    and "r1 + ((r2 - r1) / of_int (d2 - d1)) * (day - of_int d1) \<le> max r1 r2"
proof -
  define t where "t = (day - of_int d1) / (of_int d2 - of_int d1)"
  have pos: "0 < real_of_int d2 - of_int d1" using assms by linarith
  have t0: "0 \<le> t" using assms pos by (simp add: t_def)
  have t1: "t \<le> 1" using assms pos by (simp add: t_def)
  have eq: "r1 + ((r2 - r1) / of_int (d2 - d1)) * (day - of_int d1) = r1 + t * (r2 - r1)"
    by (simp add: t_def)
  have "r1 + t * (r2 - r1) = (1 - t) * r1 + t * r2"
    by (simp add: algebra_simps)
  moreover have "min r1 r2 \<le> (1 - t) * r1 + t * r2"
  proof -
    have "(1 - t) * min r1 r2 \<le> (1 - t) * r1" "t * min r1 r2 \<le> t * r2"
      using t0 t1 by (auto intro!: mult_left_mono)
    then have "(1 - t) * min r1 r2 + t * min r1 r2 \<le> (1 - t) * r1 + t * r2" by linarith
    then show ?thesis by (simp add: algebra_simps)
  qed
  moreover have "(1 - t) * r1 + t * r2 \<le> max r1 r2"
  proof -
    have "(1 - t) * r1 \<le> (1 - t) * max r1 r2" "t * r2 \<le> t * max r1 r2"
      using t0 t1 by (auto intro!: mult_left_mono)
    then have "(1 - t) * r1 + t * r2 \<le> (1 - t) * max r1 r2 + t * max r1 r2" by linarith
    then show ?thesis by (simp add: algebra_simps)
  qed
  ultimately show "min r1 r2 \<le> r1 + ((r2 - r1) / of_int (d2 - d1)) * (day - of_int d1)"
    and "r1 + ((r2 - r1) / of_int (d2 - d1)) * (day - of_int d1) \<le> max r1 r2"
    using eq by simp_all
qed


subsection \<open>The claims\<close>

text \<open>
  Claim C4. For every point table (positive integer keys) with at least two keys and every
  day strictly greater than the largest key, \<^verbatim>\<open>linear_retention\<close> returns
  \<open>r2 + ((r2 - r1) / (d2 - d1)) * (day - d2)\<close> clamped below at \<open>0.0\<close>, where
  \<open>d1 < d2\<close> are the two largest keys and \<open>r1\<close>, \<open>r2\<close> their values; hence the
  extrapolated result is never negative.
\<close>

theorem linear_retention_extrapolation:
  assumes "distinct (map fst points)"
    and "(d1, r1) \<in> set points" and "(d2, r2) \<in> set points" and "d1 < d2"
    and "\<forall>k \<in> fst ` set points. 1 \<le> k \<and> (k = d2 \<or> k \<le> d1)"
    and "of_int d2 < day"
  shows "linear_retention day points =
           Inr (max 0 (r2 + ((r2 - r1) / of_int (d2 - d1)) * (day - of_int d2))) \<and>
         (\<exists>v. linear_retention day points = Inr v \<and> 0 \<le> v)"
proof -
  have "d1 \<in> fst ` set points"
    using assms(2) by force
  with assms(5) have "1 \<le> d1" by blast
  with assms(4) have "real_of_int 2 \<le> of_int d2"
    by (simp only: of_int_le_iff)
  with assms(6) have "1 < day" by simp
  moreover have "\<forall>k \<in> fst ` set points. k = d2 \<or> k \<le> d1"
    using assms(5) by blast
  ultimately have "linear_retention day points =
      Inr (max 0 (r2 + ((r2 - r1) / of_int (d2 - d1)) * (day - of_int d2)))"
    using assms(1,2,3,4,6) by (intro linear_retention_beyond)
  then show ?thesis by simp
qed

text \<open>
  The table of variant A in \<^verbatim>\<open>task_1.py\<close> at day 30: the line through days 8 and 15
  is below zero there, and the result is \<open>0\<close>.
\<close>

theorem linear_retention_extrapolation_witness:
  "distinct (map fst ([(1, 1), (2, 53 / 100), (4, 27 / 100), (8, 17 / 100), (15, 6 / 100)] :: (int \<times> real) list)) \<and>
   real_of_int 15 < 30 \<and>
   max 0 (6 / 100 + ((6 / 100 - 17 / 100) / of_int (15 - 8)) * (30 - of_int 15)) = (0 :: real) \<and>
   linear_retention 30 [(1, 1), (2, 53 / 100), (4, 27 / 100), (8, 17 / 100), (15, 6 / 100)] = Inr 0"
proof -
  let ?points = "([(1, 1), (2, 53 / 100), (4, 27 / 100), (8, 17 / 100), (15, 6 / 100)] :: (int \<times> real) list)"
  have a: "distinct (map fst ?points)" by simp
  have b: "(8, 17 / 100) \<in> set ?points" "(15, 6 / 100) \<in> set ?points" by simp_all
  have c: "\<forall>k \<in> fst ` set ?points. 1 \<le> k \<and> (k = 15 \<or> k \<le> 8)" by simp
  have d: "real_of_int 15 < 30" by simp
  have e: "max 0 (6 / 100 + ((6 / 100 - 17 / 100) / of_int (15 - 8)) * (30 - of_int 15)) = (0 :: real)"
    by simp
  have "linear_retention 30 ?points =
      Inr (max 0 (6 / 100 + ((6 / 100 - 17 / 100) / of_int (15 - 8)) * (30 - of_int 15)))"
    using linear_retention_extrapolation [OF a b _ c d] by simp
  with a d e show ?thesis by (simp only:)
qed

text \<open>
  Claim C5, as stated, promises the table's value for every day that is a key. The test
  \<^verbatim>\<open>day <= 1\<close> comes before the lookup, so a value stored for day 1 is never
  returned: with \<open>0.9\<close> stored for day 1 the result is still \<open>1.0\<close>.
\<close>

theorem linear_retention_day_one_counterexample:
  "dict_get [(1, 9 / 10), (2, 1 / 2)] 1 = Some (9 / 10) \<and>
   linear_retention 1 [(1, 9 / 10), (2, 1 / 2)] = Inr 1 \<and>
   linear_retention 1 [(1, 9 / 10), (2, 1 / 2)] \<noteq> Inr (9 / 10)"
  by (simp add: linear_retention_def)

text \<open>
  Claim C5, amended. For every point table, every day \<open>\<le> 1\<close> gets \<open>1.0\<close> whatever the
  table holds, and every day greater than 1 that is a key of the table gets the table's
  value for that key, unmodified.
\<close>

theorem linear_retention_known_points:
  "(day \<le> 1 \<longrightarrow> linear_retention day points = Inr 1) \<and>
   (distinct (map fst points) \<and> (d, r) \<in> set points \<and> 1 < d \<longrightarrow>
      linear_retention (of_int d) points = Inr r)"
  by (auto simp: linear_retention_def dict_get_item)

text \<open>Day 1, a day before the install, and the key 4.\<close>

theorem linear_retention_known_points_witness:
  "linear_retention 1 [(1, 1), (2, 53 / 100), (4, 27 / 100)] = Inr 1 \<and>
   linear_retention (- 3) [(1, 1), (2, 53 / 100), (4, 27 / 100)] = Inr 1 \<and>
   linear_retention 4 [(1, 1), (2, 53 / 100), (4, 27 / 100)] = Inr (27 / 100)"
  using linear_retention_known_points [of 1 "[(1, 1), (2, 53 / 100), (4, 27 / 100)]" 4 "27 / 100"]
    linear_retention_known_points [of "- 3" "[(1, 1), (2, 53 / 100), (4, 27 / 100)]" 4 "27 / 100"]
  by simp

text \<open>
  Claim C6. For every point table and every day greater than 1 strictly between two
  adjacent keys \<open>d1 < d2\<close> with values \<open>r1\<close>, \<open>r2\<close>, the value returned is the linear
  interpolation and lies between \<open>min r1 r2\<close> and \<open>max r1 r2\<close>.
\<close>

theorem linear_retention_interpolation_bounds:
  assumes "distinct (map fst points)"
    and "(d1, r1) \<in> set points" and "(d2, r2) \<in> set points"
    and "\<forall>k \<in> fst ` set points. k \<le> d1 \<or> d2 \<le> k"
    and "1 < day" and "of_int d1 < day" and "day < of_int d2"
  shows "\<exists>v. linear_retention day points = Inr v \<and>
           v = r1 + ((r2 - r1) / of_int (d2 - d1)) * (day - of_int d1) \<and>
           min r1 r2 \<le> v \<and> v \<le> max r1 r2"
  using linear_retention_between [OF assms] between_bounds [OF assms(6,7)] by blast

text \<open>Day 3 of the table of variant A, between \<open>0.53\<close> at day 2 and \<open>0.27\<close> at day 4.\<close>

theorem linear_retention_interpolation_bounds_witness:
  "distinct (map fst ([(1, 1), (2, 53 / 100), (4, 27 / 100), (8, 17 / 100), (15, 6 / 100)] :: (int \<times> real) list)) \<and>
   linear_retention 3 [(1, 1), (2, 53 / 100), (4, 27 / 100), (8, 17 / 100), (15, 6 / 100)] = Inr (2 / 5) \<and>
   min (53 / 100) (27 / 100) \<le> (2 / 5 :: real) \<and> (2 / 5 :: real) \<le> max (53 / 100) (27 / 100)"
proof -
  let ?points = "([(1, 1), (2, 53 / 100), (4, 27 / 100), (8, 17 / 100), (15, 6 / 100)] :: (int \<times> real) list)"
  have a: "distinct (map fst ?points)" by simp
  have b: "(2, 53 / 100) \<in> set ?points" "(4, 27 / 100) \<in> set ?points" by simp_all
  have c: "\<forall>k \<in> fst ` set ?points. k \<le> 2 \<or> 4 \<le> k" by simp
  have d: "(1 :: real) < 3" "real_of_int 2 < 3" "3 < real_of_int 4" by simp_all
  from linear_retention_interpolation_bounds [OF a b c d]
  obtain v where "linear_retention 3 ?points = Inr v"
    and "v = 53 / 100 + ((27 / 100 - 53 / 100) / of_int (4 - 2)) * (3 - of_int 2)"
    and "min (53 / 100) (27 / 100) \<le> v" and "v \<le> max (53 / 100) (27 / 100)"
    by blast
  moreover from this have "v = 2 / 5" by simp
  ultimately show ?thesis using a by (simp only:)
qed

text \<open>
  Claim C9, as stated, asks for a failure on a day that is not an integer. Nothing in
  \<^verbatim>\<open>linear_retention\<close> looks at the type of \<^verbatim>\<open>day\<close>: day \<open>2.5\<close> of the table of
  variant A is interpolated between days 2 and 4.
\<close>

theorem linear_retention_non_integer_counterexample:
  "linear_retention (5 / 2) [(1, 1), (2, 53 / 100), (4, 27 / 100), (8, 17 / 100), (15, 6 / 100)] =
     Inr (93 / 200)"
  by (simp add: linear_retention_def interpolate_def and_then_def py_index_def dict_item_def
      py_div_def)

text \<open>
  Claim C9, amended. \<^verbatim>\<open>linear_retention\<close> does not check that the day is an integer:
  a non-integer day greater than 1 is treated like any other day. Strictly between two
  adjacent keys \<open>d1 < d2\<close> it gets the interpolated value
  \<open>r1 + ((r2 - r1) / (d2 - d1)) * (day - d1)\<close>, and beyond the two largest keys
  \<open>d1 < d2\<close> it gets \<open>r2 + ((r2 - r1) / (d2 - d1)) * (day - d2)\<close> clamped below at
  \<open>0.0\<close>.
\<close>

theorem linear_retention_non_integer_day:
  assumes "day \<notin> \<int>" and "1 < day"
    and "distinct (map fst points)"
    and "(d1, r1) \<in> set points" and "(d2, r2) \<in> set points"
  shows "((\<forall>k \<in> fst ` set points. k \<le> d1 \<or> d2 \<le> k) \<and> of_int d1 < day \<and> day < of_int d2 \<longrightarrow>
            linear_retention day points =
              Inr (r1 + ((r2 - r1) / of_int (d2 - d1)) * (day - of_int d1))) \<and>
         ((\<forall>k \<in> fst ` set points. k = d2 \<or> k \<le> d1) \<and> d1 < d2 \<and> of_int d2 < day \<longrightarrow>
            linear_retention day points =
              Inr (max 0 (r2 + ((r2 - r1) / of_int (d2 - d1)) * (day - of_int d2))))"
  using assms(2-) by (simp add: linear_retention_between linear_retention_beyond)

text \<open>Days \<open>2.5\<close> and \<open>4.5\<close> of a table with the keys 2 and 4.\<close>

theorem linear_retention_non_integer_day_witness:
  "(5 / 2 :: real) \<notin> \<int> \<and> (31 / 2 :: real) \<notin> \<int> \<and>
   linear_retention (5 / 2) [(2, 1 / 2), (4, 3 / 10)] = Inr (9 / 20) \<and>
   linear_retention (9 / 2) [(2, 1 / 2), (4, 3 / 10)] = Inr (1 / 4)"
proof -
  let ?points = "[(2, 1 / 2), (4, 3 / 10)] :: (int \<times> real) list"
  have frac: "x / 2 \<notin> \<int>" if "odd k" "x = of_int k" for x :: real and k :: int
  proof
    assume "x / 2 \<in> \<int>"
    then obtain m :: int where "x / 2 = of_int m"
      by (auto elim: Ints_cases)
    then have "real_of_int k = of_int (2 * m)"
      using that(2) by simp
    then have "k = 2 * m"
      by (simp only: of_int_eq_iff)
    with that(1) show False by simp
  qed
  have n1: "(5 / 2 :: real) \<notin> \<int>" using frac [of 5 5] by simp
  have n2: "(9 / 2 :: real) \<notin> \<int>" using frac [of 9 9] by simp
  have n3: "(31 / 2 :: real) \<notin> \<int>" using frac [of 31 31] by simp
  have a: "distinct (map fst ?points)" by simp
  have b: "(2, 1 / 2) \<in> set ?points" "(4, 3 / 10) \<in> set ?points" by simp_all
  have "linear_retention (5 / 2) ?points = Inr (9 / 20)"
    using linear_retention_non_integer_day [OF n1 _ a b] by simp
  moreover have "linear_retention (9 / 2) ?points = Inr (1 / 4)"
    using linear_retention_non_integer_day [OF n2 _ a b] by simp
  ultimately show ?thesis using n1 n3 by simp
qed

section \<open>Order of the sources and linearity\<close>

text \<open>
  With series of one length \<open>n\<close> the result of \<^verbatim>\<open>combine_sources\<close> is the list of the
  column sums, which do not depend on the order of the sources.
\<close>


lemma combine_sources_equal:
  assumes "srcs \<noteq> []" and "\<forall>s \<in> set srcs. length s = n"
  shows "combine_sources srcs = Inr (map (\<lambda>i. sum_list (map (\<lambda>s. s ! i) srcs)) [0..<n])"
proof -
  have "hd srcs \<in> set srcs"
    using assms(1) by simp
  with assms(2) have "length (hd srcs) = n"
    by blast
  moreover from this assms(2) have "\<forall>s \<in> set srcs. length (hd srcs) \<le> length s"
    by simp
  ultimately show ?thesis
    using combine_sources_ok [OF assms(1)] by simp
qed

lemma sum_list_mset_cong:
  fixes f :: "'a \<Rightarrow> real"
  assumes "mset xs = mset ys"
  shows "sum_list (map f xs) = sum_list (map f ys)"
proof -
  have "mset (map f xs) = mset (map f ys)"
    using assms by simp
  then have "sum_mset (mset (map f xs)) = sum_mset (mset (map f ys))"
    by (rule arg_cong)
  then show ?thesis
    by (simp only: sum_mset_sum_list)
qed

lemma sum_list_concat_groups:
  fixes f :: "'a \<Rightarrow> real"
  shows "sum_list (map f (concat gs)) = sum_list (map (\<lambda>g. sum_list (map f g)) gs)"
  by (induction gs) simp_all

lemma combine_sources_permuted:
  assumes "\<forall>s \<in> set srcs. length s = n" and "mset srcs' = mset srcs"
  shows "combine_sources srcs' = combine_sources srcs"
proof (cases "srcs = []")
  case True
  with assms(2) show ?thesis by simp
next
  case False
  with assms(2) have ne: "srcs' \<noteq> []" by auto
  have "set srcs' = set srcs"
    using assms(2) by (rule mset_eq_setD)
  with assms(1) have len: "\<forall>s \<in> set srcs'. length s = n" by simp
  have "map (\<lambda>i. sum_list (map (\<lambda>s. s ! i) srcs')) [0..<n] =
        map (\<lambda>i. sum_list (map (\<lambda>s. s ! i) srcs)) [0..<n]"
    using sum_list_mset_cong [OF assms(2)] by simp
  then show ?thesis
    by (simp only: combine_sources_equal [OF ne len] combine_sources_equal [OF False assms(1)])
qed

lemma combine_sources_nested:
  assumes "\<forall>s \<in> set (concat groups). length s = n" and "[] \<notin> set groups"
  shows "\<exists>parts. map combine_sources groups = map Inr parts \<and>
           combine_sources parts = combine_sources (concat groups)"
proof -
  let ?col = "\<lambda>g i. sum_list (map (\<lambda>s. s ! i) g)"
  let ?parts = "map (\<lambda>g. map (?col g) [0..<n]) groups"
  have each: "combine_sources g = Inr (map (?col g) [0..<n])" if "g \<in> set groups" for g
  proof -
    have "g \<noteq> []" using that assms(2) by auto
    moreover have "\<forall>s \<in> set g. length s = n" using that assms(1) by auto
    ultimately show ?thesis by (rule combine_sources_equal)
  qed
  then have parts: "map combine_sources groups = map Inr ?parts"
    by simp
  have "combine_sources ?parts = combine_sources (concat groups)"
  proof (cases "groups = []")
    case True
    then show ?thesis by simp
  next
    case False
    then have ne: "?parts \<noteq> []" by simp
    have len: "\<forall>p \<in> set ?parts. length p = n" by auto
    from False obtain g gs where "groups = g # gs" by (cases groups) auto
    with assms(2) have ne': "concat groups \<noteq> []" by auto
    have "sum_list (map (\<lambda>p. p ! i) ?parts) = sum_list (map (\<lambda>s. s ! i) (concat groups))"
      if "i < n" for i
    proof -
      have "map (\<lambda>p. p ! i) ?parts = map (\<lambda>g. ?col g i) groups"
        using that by simp
      then show ?thesis
        by (simp only: sum_list_concat_groups)
    qed
    then have "map (\<lambda>i. sum_list (map (\<lambda>p. p ! i) ?parts)) [0..<n] =
        map (\<lambda>i. sum_list (map (\<lambda>s. s ! i) (concat groups))) [0..<n]"
      by simp
    then show ?thesis
      by (simp only: combine_sources_equal [OF ne len] combine_sources_equal [OF ne' assms(1)])
  qed
  with parts show ?thesis by blast
qed

text \<open>
  Claim C8. \<^verbatim>\<open>combine_sources\<close> is commutative and associative: for series of equal
  length it returns a result, every permutation of the sources gives the same result entry
  by entry, and combining the sources in nested (non-empty) groups and then combining the
  group results gives the same result as combining all at once. The equalities are those of
  exact arithmetic, which is what "within floating-point tolerance" allows for.
\<close>

theorem combine_sources_order_independent:
  assumes "\<forall>s \<in> set srcs. length s = n"
  shows "\<exists>total. combine_sources srcs = Inr total \<and>
           (mset srcs' = mset srcs \<longrightarrow> combine_sources srcs' = Inr total) \<and>
           (concat groups = srcs \<and> [] \<notin> set groups \<longrightarrow>
              (\<exists>parts. map combine_sources groups = map Inr parts \<and>
                 combine_sources parts = Inr total))"
proof -
  have "\<exists>total. combine_sources srcs = Inr total"
  proof (cases "srcs = []")
    case True
    then show ?thesis by (simp add: combine_sources_def)
  next
    case False
    then show ?thesis using combine_sources_equal [OF False assms] by blast
  qed
  then obtain total where total: "combine_sources srcs = Inr total" ..
  have "combine_sources srcs' = Inr total" if "mset srcs' = mset srcs"
    using combine_sources_permuted [OF assms that] total by simp
  moreover have "\<exists>parts. map combine_sources groups = map Inr parts \<and>
        combine_sources parts = Inr total" if "concat groups = srcs \<and> [] \<notin> set groups"
    using combine_sources_nested [of groups n] that assms total by auto
  ultimately show ?thesis
    using total by blast
qed

text \<open>Three sources over two days, rotated, and grouped as one plus two.\<close>

theorem combine_sources_order_independent_witness:
  "combine_sources [[1, 2], [10, 20], [100, 200]] = Inr [111, 222] \<and>
   combine_sources [[100, 200], [1, 2], [10, 20]] = Inr [111, 222] \<and>
   (\<exists>parts. map combine_sources [[[1, 2]], [[10, 20], [100, 200]]] = map Inr parts \<and>
      combine_sources parts = Inr [111, 222])"
proof -
  let ?srcs = "[[1, 2], [10, 20], [100, 200]] :: real list list"
  let ?srcs' = "[[100, 200], [1, 2], [10, 20]] :: real list list"
  let ?groups = "[[[1, 2]], [[10, 20], [100, 200]]] :: real list list list"
  have len: "\<forall>s \<in> set ?srcs. length s = 2" by simp
  have perm: "mset ?srcs' = mset ?srcs" by simp
  have grp: "concat ?groups = ?srcs \<and> [] \<notin> set ?groups" by simp
  have val: "combine_sources ?srcs = Inr [111, 222]"
    by (simp add: combine_sources_def upt_rec)
  from combine_sources_order_independent [OF len, of ?srcs' ?groups]
  obtain total where "combine_sources ?srcs = Inr total"
    and "mset ?srcs' = mset ?srcs \<longrightarrow> combine_sources ?srcs' = Inr total"
    and "concat ?groups = ?srcs \<and> [] \<notin> set ?groups \<longrightarrow>
              (\<exists>parts. map combine_sources ?groups = map Inr parts \<and>
                 combine_sources parts = Inr total)"
    by blast
  with perm grp val show ?thesis
    by (metis sum.inject(2))
qed

text \<open>
  The elementwise sum of two install series is \<^verbatim>\<open>[o + n for o, n in zip(x, y)]\<close>, as
  \<^verbatim>\<open>task_1.py\<close> computes it.
\<close>

lemma active_users_on_add:
  assumes "length x = length y" and "t \<le> length x"
  shows "active_users_on (map2 (+) x y) r t = active_users_on x r t + active_users_on y r t"
proof -
  have "of_int (map2 (+) x y ! (s - 1)) * r (int t - int s + 1) =
        of_int (x ! (s - 1)) * r (int t - int s + 1) + of_int (y ! (s - 1)) * r (int t - int s + 1)"
    if "s \<in> {1..t}" for s
  proof -
    have "s - 1 < length x" "s - 1 < length y"
      using that assms by auto
    then show ?thesis
      by (simp add: algebra_simps)
  qed
  then have "(\<Sum>s = 1..t. of_int (map2 (+) x y ! (s - 1)) * r (int t - int s + 1)) =
      (\<Sum>s = 1..t. of_int (x ! (s - 1)) * r (int t - int s + 1) +
                   of_int (y ! (s - 1)) * r (int t - int s + 1))"
    by (intro sum.cong refl)
  then show ?thesis
    by (simp only: active_users_on_sum sum.distrib)
qed

subsection \<open>Rounded arithmetic\<close>

text \<open>Without rounding the rounded loops are the exact ones.\<close>

lemma active_users_on_rounded_exact:
  "active_users_on_rounded (\<lambda>v. v) daily_installs retention_fn current_day =
     active_users_on daily_installs retention_fn current_day"
  by (simp add: active_users_on_rounded_def active_users_on_def)

lemma simulate_dau_rounded_exact:
  "simulate_dau_rounded (\<lambda>v. v) daily_installs retention_fn =
     simulate_dau daily_installs retention_fn"
  by (simp only: simulate_dau_rounded_def simulate_dau_def active_users_on_rounded_exact)

lemma day_sum_loop_rounded_exact:
  "day_sum_loop_rounded (\<lambda>v. v) srcs i a = day_sum_loop srcs i a"
  by (induction srcs arbitrary: a) simp_all

lemma total_dau_loop_rounded_exact:
  "total_dau_loop_rounded (\<lambda>v. v) srcs idxs acc = total_dau_loop srcs idxs acc"
  by (induction idxs arbitrary: acc) (simp_all add: day_sum_loop_rounded_exact split: sum.splits)

lemma combine_sources_rounded_exact:
  "combine_sources_rounded (\<lambda>v. v) dau_sources = combine_sources dau_sources"
  by (simp add: combine_sources_rounded_def combine_sources_def total_dau_loop_rounded_exact)

text \<open>
  The value of \<open>f64\<close> at a positive number below \<open>2^53\<close>, from the exponent \<open>k\<close> that
  brings it into \<open>[2^52, 2^53)\<close>.
\<close>

lemma round_significand_scaled:
  "0 < m \<Longrightarrow> k \<le> steps \<Longrightarrow> 2 ^ 52 \<le> m * 2 ^ k \<Longrightarrow> m * 2 ^ k < 2 ^ 53 \<Longrightarrow>
   round_significand steps m ulp = of_int (round_half_even (m * 2 ^ k)) * (ulp / 2 ^ k)"
proof (induction k arbitrary: steps m ulp)
  case 0
  then show ?case by (cases steps) simp_all
next
  case (Suc k)
  from Suc.prems(2) obtain s where steps: "steps = Suc s" and ks: "k \<le> s"
    by (cases steps) simp_all
  have "m * 2 \<le> m * 2 ^ Suc k"
    using Suc.prems(1) by simp
  with Suc.prems(4) have small: "m < 2 ^ 52"
    by simp
  have "round_significand s (2 * m) (ulp / 2) =
      of_int (round_half_even (2 * m * 2 ^ k)) * (ulp / 2 / 2 ^ k)"
    using Suc.prems ks by (intro Suc.IH) (simp_all add: mult.assoc mult.left_commute)
  with small show ?case
    by (simp add: steps mult.assoc mult.left_commute)
qed

lemma f64_scaled:
  assumes "0 < x" and "k \<le> 1074" and "2 ^ 52 \<le> x * 2 ^ k" and "x * 2 ^ k < 2 ^ 53"
  shows "f64 x = of_int (round_half_even (x * 2 ^ k)) / 2 ^ k"
  using assms round_significand_scaled [of x k 1074 1] by (simp add: f64_def)

text \<open>The roundings that occur for the installs 1, 5 and 6 under the retention one third.\<close>

lemma one_third_double: "f64 (1 / 3) = 6004799503160661 / 18014398509481984"
  using f64_scaled [of "1 / 3" 54] by (simp add: round_half_even_def)

lemma double_1: "f64 1 = 1"
  using f64_scaled [of 1 52] by (simp add: round_half_even_def)

lemma double_5: "f64 5 = 5"
  using f64_scaled [of 5 50] by (simp add: round_half_even_def)

lemma double_6: "f64 6 = 6"
  using f64_scaled [of 6 50] by (simp add: round_half_even_def)

lemma double_2: "f64 2 = 2"
  using f64_scaled [of 2 51] by (simp add: round_half_even_def)

lemma double_third:
  "f64 (6004799503160661 / 18014398509481984) = 6004799503160661 / 18014398509481984"
  using f64_scaled [of "6004799503160661 / 18014398509481984" 54]
  by (simp add: round_half_even_def)

lemma double_five_thirds:
  "f64 (5 * (6004799503160661 / 18014398509481984)) = 3752999689475413 / 2251799813685248"
  using f64_scaled [of "5 * (6004799503160661 / 18014398509481984)" 52]
  by (simp add: round_half_even_def)

lemma double_five_thirds_again:
  "f64 (3752999689475413 / 2251799813685248) = 3752999689475413 / 2251799813685248"
  using f64_scaled [of "3752999689475413 / 2251799813685248" 52]
  by (simp add: round_half_even_def)

lemma double_six_thirds: "f64 (6 * (6004799503160661 / 18014398509481984)) = 2"
  using f64_scaled [of "6 * (6004799503160661 / 18014398509481984)" 52]
  by (simp add: round_half_even_def)

lemma double_sum_of_parts:
  "f64 (6004799503160661 / 18014398509481984 + 3752999689475413 / 2251799813685248) =
     9007199254740991 / 4503599627370496"
  using f64_scaled [of "6004799503160661 / 18014398509481984 + 3752999689475413 / 2251799813685248" 52]
  by (simp add: round_half_even_def)

lemma simulate_dau_rounded_one_day:
  "simulate_dau_rounded rnd [n] r = [rnd (0 + rnd (rnd (of_int n) * r 1))]"
  by (simp add: simulate_dau_rounded_def active_users_on_rounded_def)

lemma combine_sources_rounded_one_day:
  "combine_sources_rounded rnd [[a], [b]] = Inr [rnd (rnd (0 + a) + b)]"
  by (simp add: combine_sources_rounded_def)


text \<open>
  Claim C10, as stated, equates two float results entry by entry. With one install on the
  first source, five on the second and the retention \<^verbatim>\<open>lambda age: 1/3\<close>, the DAU of the
  summed installs is \<open>6 * (1/3)\<close>, which rounds to \<open>2.0\<close>, while the combined DAU is
  \<open>1 * (1/3) + 5 * (1/3)\<close>, which rounds to \<open>1.9999999999999998\<close>, one spacing below.
\<close>

theorem simulate_dau_linear_rounding_counterexample:
  "simulate_dau_rounded f64 (map2 (+) [1] [5]) one_third_retention = [2] \<and>
   combine_sources_rounded f64
     [simulate_dau_rounded f64 [1] one_third_retention,
      simulate_dau_rounded f64 [5] one_third_retention] =
     Inr [9007199254740991 / 4503599627370496] \<and>
   combine_sources_rounded f64
     [simulate_dau_rounded f64 [1] one_third_retention,
      simulate_dau_rounded f64 [5] one_third_retention] \<noteq>
     Inr (simulate_dau_rounded f64 (map2 (+) [1] [5]) one_third_retention)"
proof -
  have r: "one_third_retention 1 = 6004799503160661 / 18014398509481984"
    by (simp only: one_third_retention_def one_third_double)
  have "map2 (+) [1] [5] = [6 :: int]"
    by simp
  then have whole: "simulate_dau_rounded f64 (map2 (+) [1] [5]) one_third_retention = [2]"
    by (simp only: simulate_dau_rounded_one_day r of_int_numeral double_6 double_six_thirds
        add_0 double_2)
  have one: "simulate_dau_rounded f64 [1] one_third_retention =
      [6004799503160661 / 18014398509481984]"
    by (simp only: simulate_dau_rounded_one_day r of_int_1 double_1 mult_1 double_third add_0)
  have five: "simulate_dau_rounded f64 [5] one_third_retention =
      [3752999689475413 / 2251799813685248]"
    by (simp only: simulate_dau_rounded_one_day r of_int_numeral double_5 double_five_thirds
        add_0 double_five_thirds_again)
  have parts: "combine_sources_rounded f64
     [simulate_dau_rounded f64 [1] one_third_retention,
      simulate_dau_rounded f64 [5] one_third_retention] =
     Inr [9007199254740991 / 4503599627370496]"
    by (simp only: one five combine_sources_rounded_one_day add_0 double_third
        double_sum_of_parts)
  have "(9007199254740991 / 4503599627370496 :: real) \<noteq> 2"
    by simp
  with whole parts show ?thesis
    by simp
qed

text \<open>
  Claim C10, amended. In exact arithmetic \<^verbatim>\<open>simulate_dau\<close> is linear in its install
  series: for install series \<open>x\<close> and \<open>y\<close> of equal length and every retention function
  \<open>r\<close>, combining the DAU of \<open>x\<close> and the DAU of \<open>y\<close> gives, entry by entry, the DAU
  of the elementwise sum of \<open>x\<close> and \<open>y\<close>. Computed with doubles, the two sides can
  differ by rounding, as above.
\<close>

theorem simulate_dau_linear:
  assumes "length x = length y"
  shows "combine_sources [simulate_dau x r, simulate_dau y r] =
           Inr (simulate_dau (map2 (+) x y) r)"
proof -
  let ?n = "length x"
  have "combine_sources [simulate_dau x r, simulate_dau y r] =
      Inr (map (\<lambda>i. sum_list (map (\<lambda>s. s ! i) [simulate_dau x r, simulate_dau y r])) [0..<?n])"
    using assms by (intro combine_sources_equal) (simp_all add: simulate_dau_length)
  moreover have "map (\<lambda>i. sum_list (map (\<lambda>s. s ! i) [simulate_dau x r, simulate_dau y r])) [0..<?n] =
      simulate_dau (map2 (+) x y) r"
  proof (rule nth_equalityI)
    show "length (map (\<lambda>i. sum_list (map (\<lambda>s. s ! i) [simulate_dau x r, simulate_dau y r])) [0..<?n]) =
        length (simulate_dau (map2 (+) x y) r)"
      using assms by (simp add: simulate_dau_length)
  next
    fix i
    assume "i < length (map (\<lambda>i. sum_list (map (\<lambda>s. s ! i) [simulate_dau x r, simulate_dau y r])) [0..<?n])"
    then have i: "i < length x" by simp
    then have "i < length y" "i < length (map2 (+) x y)" "i + 1 \<le> length x"
      using assms by simp_all
    then show "map (\<lambda>i. sum_list (map (\<lambda>s. s ! i) [simulate_dau x r, simulate_dau y r])) [0..<?n] ! i =
        simulate_dau (map2 (+) x y) r ! i"
      using i assms by (simp add: simulate_dau_nth active_users_on_add del: upt_Suc)
  qed
  ultimately show ?thesis by (simp only:)
qed

text \<open>Two sources over three days under the retention \<open>1 / age\<close>.\<close>

theorem simulate_dau_linear_witness:
  "length [100, 200, 0 :: int] = length [50, 0, 10 :: int] \<and>
   combine_sources [simulate_dau [100, 200, 0] (\<lambda>age. 1 / of_int age),
                    simulate_dau [50, 0, 10] (\<lambda>age. 1 / of_int age)] =
     Inr (simulate_dau [150, 200, 10] (\<lambda>age. 1 / of_int age))"
proof -
  have len: "length [100, 200, 0 :: int] = length [50, 0, 10 :: int]" by simp
  show ?thesis
    using simulate_dau_linear [OF len, of "\<lambda>age. 1 / of_int age"] by simp
qed

end
